theory Spec2Isabelle
  imports Complex_Main
begin

section \<open>Chord analysis service (backend/app/services/chord_analyzer.py)\<close>

text \<open>
  Times, durations and confidences are Python floats in the source. They are modelled as
  exact rationals: \<open>frame_idx / self.fps\<close> is the fraction \<open>frame_idx / 10\<close>, the
  literal \<open>0.5\<close> is \<open>1/2\<close> and \<open>0.85\<close> is \<open>17/20\<close>. Chord indices are Python
  integers (\<open>int\<close>), labels are strings. A property that compares a sum of durations
  with a threshold is stated with a margin, so that it does not rest on the exactness
  of the rationals.
\<close>

subsection \<open>Class constants\<close>

definition CHORD_NAMES :: "string list" where
  "CHORD_NAMES =
     [''C'', ''C#'', ''D'', ''D#'', ''E'', ''F'', ''F#'', ''G'', ''G#'', ''A'', ''A#'', ''B'']"

text \<open>\<open>self.fps = 10\<close>, set in \<open>__init__\<close>.\<close>

definition fps :: nat where
  "fps = 10"

subsection \<open>\<open>_get_chord_name\<close>\<close>

text \<open>
  Python's \<open>%\<close> on integers rounds towards minus infinity, as \<open>mod\<close> on \<open>int\<close> does,
  so \<open>root\<close> is always an index of \<open>CHORD_NAMES\<close> and the lookup never raises.
\<close>

definition get_chord_name :: "int \<Rightarrow> string" where
  "get_chord_name chord_idx =
     (if chord_idx = 24 then ''N''
      else
        (let root = chord_idx mod 12;
             quality = (if chord_idx < 12 then ''maj'' else ''min'')
         in (CHORD_NAMES ! nat root) @ '':'' @ quality))"

subsection \<open>\<open>_detect_chords_madmom\<close>: the run-length merge\<close>

text \<open>One entry of \<open>chords_data\<close>: the dict with keys time, chord, duration, confidence.\<close>

record chord_event =
  time :: rat
  chord :: string
  duration :: rat
  confidence :: rat

text \<open>The three variables the loop updates.\<close>

record detect_state =
  chords_data :: "chord_event list"
  prev_chord :: "string option"
  prev_time :: rat

text \<open>
  One iteration of \<open>for frame_idx, chord_idx in enumerate(chords)\<close>. The test
  \<open>chord_name != prev_chord\<close> is true when \<open>prev_chord\<close> is still \<open>None\<close>.
\<close>

definition detect_step :: "nat \<Rightarrow> int \<Rightarrow> detect_state \<Rightarrow> detect_state" where
  "detect_step frame_idx chord_idx st =
     (let t = of_nat frame_idx / of_nat fps;
          chord_name = get_chord_name chord_idx
      in if Some chord_name \<noteq> prev_chord st then
           (let st1 =
                  (case prev_chord st of
                     None \<Rightarrow> st
                   | Some pc \<Rightarrow>
                       st\<lparr>chords_data := chords_data st @
                            [\<lparr>time = prev_time st, chord = pc,
                              duration = t - prev_time st, confidence = 17 / 20\<rparr>]\<rparr>)
            in st1\<lparr>prev_chord := Some chord_name, prev_time := t\<rparr>)
         else st)"

fun detect_loop :: "nat \<Rightarrow> int list \<Rightarrow> detect_state \<Rightarrow> detect_state" where
  "detect_loop frame_idx [] st = st"
| "detect_loop frame_idx (chord_idx # rest) st =
     detect_loop (Suc frame_idx) rest (detect_step frame_idx chord_idx st)"

text \<open>
  The part of \<open>_detect_chords_madmom\<close> after the two madmom processors have produced
  \<open>chords\<close>, the per-frame chord indices: the loop, then the final chord.
\<close>

definition detect_chords_madmom :: "int list \<Rightarrow> chord_event list" where
  "detect_chords_madmom chords =
     (let st = detect_loop 0 chords \<lparr>chords_data = [], prev_chord = None, prev_time = 0\<rparr>
      in case prev_chord st of
           None \<Rightarrow> chords_data st
         | Some pc \<Rightarrow>
             chords_data st @
               [\<lparr>time = prev_time st, chord = pc, duration = 1 / 2, confidence = 17 / 20\<rparr>])"

subsection \<open>\<open>_analyze_chord_sequence\<close>\<close>

text \<open>
  A Python \<open>dict\<close> (and a \<open>Counter\<close>) from strings to integers, as the list of its
  items in insertion order. \<open>dict_get d k v\<close> is \<open>d.get(k, v)\<close> and \<open>dict_set d k v\<close>
  is \<open>d[k] = v\<close>: an existing key keeps its place, a new key goes to the end.
\<close>

type_synonym str_counts = "(string \<times> int) list"

definition dict_get :: "str_counts \<Rightarrow> string \<Rightarrow> int \<Rightarrow> int" where
  "dict_get d k dflt = (case map_of d k of None \<Rightarrow> dflt | Some v \<Rightarrow> v)"

fun dict_set :: "str_counts \<Rightarrow> string \<Rightarrow> int \<Rightarrow> str_counts" where
  "dict_set [] k v = [(k, v)]"
| "dict_set ((k', v') # d) k v =
     (if k' = k then (k, v) # d else (k', v') # dict_set d k v)"

text \<open>
  The transition loop: \<open>for i in range(len(chord_sequence) - 1)\<close>, with the key
  built by the f-string \<open>"{from_chord} -> {to_chord}"\<close>.
\<close>

definition transition_step :: "string list \<Rightarrow> nat \<Rightarrow> str_counts \<Rightarrow> str_counts" where
  "transition_step chord_sequence i transitions =
     (let from_chord = chord_sequence ! i;
          to_chord = chord_sequence ! (i + 1);
          transition = from_chord @ '' -> '' @ to_chord
      in dict_set transitions transition (dict_get transitions transition 0 + 1))"

definition count_transitions :: "string list \<Rightarrow> str_counts" where
  "count_transitions chord_sequence =
     fold (transition_step chord_sequence) [0..<length chord_sequence - 1] []"

text \<open>
  \<open>collections.Counter(chord_sequence)\<close>: each element is counted in turn, so the items
  stand in the order the labels were first seen.
\<close>

definition Counter :: "string list \<Rightarrow> str_counts" where
  "Counter elems = fold (\<lambda>elem c. dict_set c elem (dict_get c elem 0 + 1)) elems []"

text \<open>
  \<open>most_common(1)\<close> is \<open>heapq.nlargest(1, items, key=count)\<close>, which for \<open>n = 1\<close> is
  \<open>max(items, key=count)\<close>: the running maximum is replaced only by a strictly larger
  count, so the first item with the largest count is returned.
\<close>

fun max_by_count :: "string \<times> int \<Rightarrow> (string \<times> int) list \<Rightarrow> string \<times> int" where
  "max_by_count best [] = best"
| "max_by_count best (item # items) =
     max_by_count (if snd item > snd best then item else best) items"

definition most_common_1 :: "str_counts \<Rightarrow> (string \<times> int) list" where
  "most_common_1 c = (case c of [] \<Rightarrow> [] | item # items \<Rightarrow> [max_by_count item items])"

text \<open>\<open>s.split(":")\<close>: the pieces between the colons; never an empty list.\<close>

fun split_colon :: "string \<Rightarrow> string list" where
  "split_colon [] = [[]]"
| "split_colon (c # cs) =
     (if c = CHR '':'' then [] # split_colon cs
      else (case split_colon cs of
              [] \<Rightarrow> [[c]]
            | piece # pieces \<Rightarrow> (c # piece) # pieces))"

text \<open>
  The model \<open>ChordProgression\<close> of \<open>app/models/music_analysis.py\<close>. \<open>unique_chords\<close> is
  \<open>list(set(...))\<close>, a list in no specified order: it is kept as the set.
  \<open>chord_transitions\<close> is the dict from transition strings to counts.
\<close>

record ChordProgression =
  chords :: "chord_event list"
  chord_sequence :: "string list"
  key :: "string option"
  mode :: "string option"
  unique_chords :: "string set"
  chord_transitions :: str_counts
  most_common_chord :: "string option"
  analyzer_used :: string
  confidence_mean :: "rat option"

text \<open>The key and mode estimate, lines 169 to 176.\<close>

definition estimate_key :: "string option \<Rightarrow> string option \<times> string option" where
  "estimate_key most_common =
     (case most_common of
        None \<Rightarrow> (None, None)
      | Some m \<Rightarrow>
          if m \<noteq> [] \<and> m \<noteq> ''N'' then
            (let parts = split_colon m
             in if length parts = 2 then
                  (Some (parts ! 0), Some (if parts ! 1 = ''maj'' then ''major'' else ''minor''))
                else (None, None))
          else (None, None))"

text \<open>
  \<open>_analyze_chord_sequence\<close>, with the dict it returns already passed to the
  \<open>ChordProgression\<close> constructor (a key the dict lacks takes the model's default
  \<open>None\<close>). \<open>np.mean\<close> is the sum divided by the length.
\<close>

definition analyze_chord_sequence :: "chord_event list \<Rightarrow> ChordProgression" where
  "analyze_chord_sequence data =
     (if data = [] then
        \<lparr>chords = [], chord_sequence = [], key = None, mode = None, unique_chords = {},
         chord_transitions = [], most_common_chord = None, analyzer_used = ''madmom'',
         confidence_mean = Some 0\<rparr>
      else
        (let sequence = map chord data;
             transitions = count_transitions sequence;
             chord_counts = Counter sequence;
             most_common =
               (if chord_counts \<noteq> [] then Some (fst (most_common_1 chord_counts ! 0))
                else None);
             confidences = map confidence data;
             mean =
               (if confidences \<noteq> [] then sum_list confidences / of_nat (length confidences)
                else 0);
             (k, m) = estimate_key most_common
         in \<lparr>chords = data, chord_sequence = sequence, key = k, mode = m,
             unique_chords = set sequence, chord_transitions = transitions,
             most_common_chord = most_common, analyzer_used = ''madmom'',
             confidence_mean = Some mean\<rparr>))"

subsection \<open>\<open>ChordAnalyzer.analyze\<close>\<close>

text \<open>A raised Python exception, with its message.\<close>

datatype error = Error string

text \<open>
  \<open>analyze\<close> takes what the two madmom processors do on the audio file: they raise
  (\<open>Inl\<close>) or return the frame indices (\<open>Inr\<close>). Everything is inside \<open>try\<close>, and the
  handler \<open>except Exception\<close> logs and returns a \<open>ChordProgression\<close> with empty fields;
  \<open>confidence_mean\<close> keeps its default \<open>None\<close> there.
\<close>

definition analyze :: "error + int list \<Rightarrow> error + ChordProgression" where
  "analyze madmom_result =
     (case madmom_result of
        Inr frames \<Rightarrow> Inr (analyze_chord_sequence (detect_chords_madmom frames))
      | Inl e \<Rightarrow>
          Inr \<lparr>chords = [], chord_sequence = [], key = None, mode = None,
               unique_chords = {}, chord_transitions = [], most_common_chord = None,
               analyzer_used = ''madmom'', confidence_mean = None\<rparr>)"

section \<open>Whisper transcription (backend/app/services/whisper_transcription.py)\<close>

text \<open>
  A segment of the API response and the response; field names carry a prefix where the
  source's name is an Isabelle keyword or is already a field of another record.
\<close>

record whisper_segment =
  seg_id :: int
  seg_start :: rat
  seg_end :: rat
  seg_text :: string
  seg_confidence :: "rat option"
  seg_no_speech_prob :: "rat option"

record whisper_response =
  resp_text :: string
  resp_language :: "string option"
  resp_segments :: "whisper_segment list"

record Lyrics =
  lyrics_text :: "string option"
  lyrics_language :: "string option"
  lyrics_segments :: "whisper_segment list option"
  lyrics_confidence :: "rat option"
  model_used :: string
  processing_time :: "rat option"

text \<open>
  \<open>transcribe\<close>: \<open>has_client\<close> says whether \<open>self.client\<close> was built (an API key was
  given), \<open>api_result\<close> is what opening the file and calling the API do, and \<open>elapsed\<close>
  is the measured processing time. Both handlers return \<open>None\<close>.
\<close>

definition transcribe :: "bool \<Rightarrow> error + whisper_response \<Rightarrow> rat \<Rightarrow> Lyrics option" where
  "transcribe has_client api_result elapsed =
     (if \<not> has_client then None
      else
        (case api_result of
           Inl e \<Rightarrow> None
         | Inr response \<Rightarrow>
             (let segments = resp_segments response;
                  confidences = List.map_filter seg_confidence segments;
                  conf =
                    (if segments \<noteq> [] \<and> confidences \<noteq> [] then
                       Some (sum_list confidences / of_nat (length confidences))
                     else None)
              in Some \<lparr>lyrics_text = Some (resp_text response),
                       lyrics_language = resp_language response,
                       lyrics_segments = (if segments \<noteq> [] then Some segments else None),
                       lyrics_confidence = conf,
                       model_used = ''whisper-1'',
                       processing_time = Some elapsed\<rparr>)))"

section \<open>The orchestrator (backend/app/services/audio_analyzer.py)\<close>

text \<open>
  The two feature payloads are opaque to the orchestrator: they are type parameters.
  \<open>_extract_metadata\<close> wraps its whole body in \<open>try\<close> and returns a dict on every path;
  the dict is modelled by the optional fields the document reads from it. The text
  fields are strings. The year is an integer when the date tag holds a run of four
  digits; otherwise the string of the tag is left in the dict as it is (lines 157 to
  166).
\<close>

datatype year_value = YearInt int | YearStr string

record metadata =
  meta_title :: "string option"
  meta_artist :: "string option"
  meta_album :: "string option"
  meta_genre :: "string option"
  meta_year :: "year_value option"

record ('lf, 'ef) AudioFeatures =
  librosa :: "'lf option"
  essentia :: "'ef option"
  chord_progression :: "ChordProgression option"
  lyrics :: "Lyrics option"

record ('lf, 'ef) MusicAnalysis =
  filename :: string
  file_size :: int
  track_duration :: rat
  sample_rate :: int
  source :: string
  source_path :: "string option"
  title :: "string option"
  artist :: "string option"
  album :: "string option"
  genre :: "string option"
  year :: "int option"
  features :: "('lf, 'ef) AudioFeatures"
  processing_time_total :: "rat option"

text \<open>
  What the world outside the orchestrator does on one audio file: the result of each
  external call, and the two clock differences. \<open>year_coercion\<close> is what the
  validation of the field \<open>year: Optional[int]\<close> does when it is given the string of the
  date tag: the integer the string is read as, or the \<open>ValidationError\<close> it raises.
\<close>

record ('lf, 'ef) env =
  metadata_result :: metadata
  year_coercion :: "error + int"
  getsize_result :: "error + int"
  librosa_result :: "error + ('lf \<times> rat \<times> int)"
  essentia_result :: "error + 'ef"
  madmom_result :: "error + int list"
  whisper_has_client :: bool
  whisper_api_result :: "error + whisper_response"
  whisper_elapsed :: rat
  total_elapsed :: rat

text \<open>The calls \<open>analyze_audio\<close> makes, recorded in the order they are made.\<close>

datatype stage =
  MetadataStage | GetSizeStage | LibrosaStage | EssentiaStage | ChordStage | WhisperStage

text \<open>\<open>os.path.basename\<close>: what follows the last slash.\<close>

definition basename :: "string \<Rightarrow> string" where
  "basename p = rev (takeWhile (\<lambda>c. c \<noteq> CHR ''/'') (rev p))"

text \<open>
  The validation of \<open>year\<close> by the constructor \<open>MusicAnalysis(...)\<close>: an absent year and
  an integer pass, a string is coerced or refused.
\<close>

definition validate_year :: "year_value option \<Rightarrow> error + int \<Rightarrow> error + int option" where
  "validate_year y coercion =
     (case y of
        None \<Rightarrow> Inr None
      | Some (YearInt n) \<Rightarrow> Inr (Some n)
      | Some (YearStr s) \<Rightarrow> (case coercion of Inl e \<Rightarrow> Inl e | Inr n \<Rightarrow> Inr (Some n)))"

text \<open>
  \<open>analyze_audio\<close> returns the calls made and either the exception that reached the
  caller or the document. Metadata and the file size are read before \<open>try\<close>; the
  handler of \<open>try\<close> logs and re-raises the exception as it is. The document is built
  after \<open>try\<close>, so an exception of its constructor reaches the caller as well.
\<close>

definition analyze_audio ::
  "('lf, 'ef) env \<Rightarrow> string \<Rightarrow> string \<Rightarrow> string option \<Rightarrow> bool \<Rightarrow>
     stage list \<times> (error + ('lf, 'ef) MusicAnalysis)" where
  "analyze_audio world audio_path src src_path extract_lyrics =
     (let md = metadata_result world;
          fname = basename audio_path;
          called = [MetadataStage, GetSizeStage]
      in case getsize_result world of
           Inl e \<Rightarrow> (called, Inl e)
         | Inr fsize \<Rightarrow>
       (let called = called @ [LibrosaStage]
        in case librosa_result world of
             Inl e \<Rightarrow> (called, Inl e)
           | Inr (librosa_features, dur, rate) \<Rightarrow>
         (let called = called @ [EssentiaStage]
          in case essentia_result world of
               Inl e \<Rightarrow> (called, Inl e)
             | Inr essentia_features \<Rightarrow>
           (let called = called @ [ChordStage]
            in case analyze (madmom_result world) of
                 Inl e \<Rightarrow> (called, Inl e)
               | Inr progression \<Rightarrow>
             (let (called, lyr) =
                    (if extract_lyrics then
                       (called @ [WhisperStage],
                        transcribe (whisper_has_client world) (whisper_api_result world)
                          (whisper_elapsed world))
                     else (called, None))
              in case validate_year (meta_year md) (year_coercion world) of
                   Inl e \<Rightarrow> (called, Inl e)
                 | Inr yr \<Rightarrow>
                  (called,
                   Inr \<lparr>filename = fname, file_size = fsize, track_duration = dur,
                        sample_rate = rate, source = src, source_path = src_path,
                        title = meta_title md, artist = meta_artist md,
                        album = meta_album md, genre = meta_genre md, year = yr,
                        features =
                          \<lparr>librosa = Some librosa_features,
                           essentia = Some essentia_features,
                           chord_progression = Some progression, lyrics = lyr\<rparr>,
                        processing_time_total = Some (total_elapsed world)\<rparr>))))))"

section \<open>Reference notions used to state the properties\<close>

subsection \<open>The label vocabulary\<close>

text \<open>
  The closed vocabulary of the data model: the twelve roots with \<open>maj\<close>, the twelve
  roots with \<open>min\<close>, and the sentinel \<open>N\<close>.
\<close>

definition vocabulary :: "string list" where
  "vocabulary =
     map (\<lambda>r. r @ '':maj'') CHORD_NAMES @ map (\<lambda>r. r @ '':min'') CHORD_NAMES @ [''N'']"

subsection \<open>Concrete inputs\<close>

text \<open>
  A world in which the file is 1024 bytes long, its date tag gives the year 1999 and
  essentia succeeds; the results of librosa, of madmom and of the Whisper client are the
  arguments.
\<close>

definition sample_world :: "(error + unit \<times> rat \<times> int) \<Rightarrow> (error + int list) \<Rightarrow> bool \<Rightarrow>
    (error + whisper_response) \<Rightarrow> (unit, unit) env" where
  "sample_world lib mad client api =
     \<lparr>metadata_result =
        \<lparr>meta_title = Some ''Song'', meta_artist = None, meta_album = None,
         meta_genre = None, meta_year = Some (YearInt 1999)\<rparr>,
      year_coercion = Inl (Error ''unused''),
      getsize_result = Inr 1024,
      librosa_result = lib,
      essentia_result = Inr (),
      madmom_result = mad,
      whisper_has_client = client,
      whisper_api_result = api,
      whisper_elapsed = 2,
      total_elapsed = 5\<rparr>"

text \<open>
  The same world for a file whose date tag is \<open>unknown\<close>: no run of four digits, so the
  string stays in the metadata, and the validation of \<open>year\<close> refuses it.
\<close>

definition undated_world :: "(error + unit \<times> rat \<times> int) \<Rightarrow> (error + int list) \<Rightarrow> bool \<Rightarrow>
    (error + whisper_response) \<Rightarrow> (unit, unit) env" where
  "undated_world lib mad client api =
     (sample_world lib mad client api)
       \<lparr>metadata_result :=
          \<lparr>meta_title = Some ''Song'', meta_artist = None, meta_album = None,
           meta_genre = None, meta_year = Some (YearStr ''unknown'')\<rparr>,
        year_coercion := Inl (Error ''ValidationError'')\<rparr>"

text \<open>The \<open>ChordProgression\<close> that the handler of \<open>ChordAnalyzer.analyze\<close> builds.\<close>

definition empty_progression :: ChordProgression where
  "empty_progression =
     \<lparr>chords = [], chord_sequence = [], key = None, mode = None, unique_chords = {},
      chord_transitions = [], most_common_chord = None, analyzer_used = ''madmom'',
      confidence_mean = None\<rparr>"

subsection \<open>Segments of a frame-label sequence\<close>

text \<open>
  The frames at which a new segment starts: frame 0, and each frame whose label differs
  from the label of the frame before it.
\<close>

definition segment_starts :: "string list \<Rightarrow> nat list" where
  "segment_starts labels =
     filter (\<lambda>i. i = 0 \<or> labels ! i \<noteq> labels ! (i - 1)) [0..<length labels]"

text \<open>The number of frames of the last run: the trailing frames that carry the last label.\<close>

definition final_run_length :: "string list \<Rightarrow> nat" where
  "final_run_length labels = length (takeWhile (\<lambda>l. l = last labels) (rev labels))"

text \<open>
  The merge as a function of the labels, for the proofs. \<open>starts_from k p ls\<close> scans
  the labels \<open>ls\<close> of the frames from index \<open>k\<close> on, \<open>p\<close> being the label before
  them, and lists each start with its label; \<open>events_of\<close> turns the starts into events;
  \<open>finish\<close> is the code after the loop.
\<close>

fun starts_from :: "nat \<Rightarrow> string option \<Rightarrow> string list \<Rightarrow> (nat \<times> string) list" where
  "starts_from k p [] = []"
| "starts_from k p (l # ls) =
     (if Some l \<noteq> p then (k, l) # starts_from (Suc k) (Some l) ls
      else starts_from (Suc k) p ls)"

fun events_of :: "(nat \<times> string) list \<Rightarrow> chord_event list" where
  "events_of [] = []"
| "events_of [(i, l)] =
     [\<lparr>time = of_nat i / of_nat fps, chord = l, duration = 1 / 2, confidence = 17 / 20\<rparr>]"
| "events_of ((i, l) # (j, m) # rest) =
     \<lparr>time = of_nat i / of_nat fps, chord = l,
      duration = of_nat j / of_nat fps - of_nat i / of_nat fps, confidence = 17 / 20\<rparr>
     # events_of ((j, m) # rest)"

definition finish :: "detect_state \<Rightarrow> chord_event list" where
  "finish st =
     (case prev_chord st of
        None \<Rightarrow> chords_data st
      | Some pc \<Rightarrow>
          chords_data st @
            [\<lparr>time = prev_time st, chord = pc, duration = 1 / 2, confidence = 17 / 20\<rparr>])"

subsection \<open>The merge of timed frames\<close>

text \<open>
  The contract of the specification takes the frames as pairs of a time and a label.
  \<open>timed_step\<close> and \<open>timed_loop\<close> are the loop of \<open>_detect_chords_madmom\<close> with the
  time and the label of a frame given with the frame, where the source computes them
  from the index and the class of the frame; \<open>merge_timed\<close> runs the loop from the
  initial variables and adds the final chord. \<open>timed_frames\<close> are the frames the source
  works on: frame \<open>i\<close> at the time \<open>i / fps\<close> with the label of its class.
\<close>

definition timed_step :: "rat \<Rightarrow> string \<Rightarrow> detect_state \<Rightarrow> detect_state" where
  "timed_step t chord_name st =
     (if Some chord_name \<noteq> prev_chord st then
        (let st1 =
               (case prev_chord st of
                  None \<Rightarrow> st
                | Some pc \<Rightarrow>
                    st\<lparr>chords_data := chords_data st @
                         [\<lparr>time = prev_time st, chord = pc,
                           duration = t - prev_time st, confidence = 17 / 20\<rparr>]\<rparr>)
         in st1\<lparr>prev_chord := Some chord_name, prev_time := t\<rparr>)
      else st)"

fun timed_loop :: "(rat \<times> string) list \<Rightarrow> detect_state \<Rightarrow> detect_state" where
  "timed_loop [] st = st"
| "timed_loop ((t, chord_name) # rest) st = timed_loop rest (timed_step t chord_name st)"

definition merge_timed :: "(rat \<times> string) list \<Rightarrow> chord_event list" where
  "merge_timed fs = finish (timed_loop fs \<lparr>chords_data = [], prev_chord = None, prev_time = 0\<rparr>)"

definition timed_frames :: "int list \<Rightarrow> (rat \<times> string) list" where
  "timed_frames frames =
     zip (map (\<lambda>i. of_nat i / of_nat fps) [0..<length frames]) (map get_chord_name frames)"

text \<open>A segment read as a frame: its start time and its label.\<close>

definition as_frame :: "chord_event \<Rightarrow> rat \<times> string" where
  "as_frame e = (time e, chord e)"

text \<open>
  For the proofs: \<open>changes p fs\<close> keeps the frames whose label differs from the label
  before them, \<open>p\<close> being the label before the first; \<open>events_timed\<close> turns them into
  events.
\<close>

fun changes :: "string option \<Rightarrow> (rat \<times> string) list \<Rightarrow> (rat \<times> string) list" where
  "changes p [] = []"
| "changes p ((t, l) # fs) =
     (if Some l \<noteq> p then (t, l) # changes (Some l) fs else changes p fs)"

fun events_timed :: "(rat \<times> string) list \<Rightarrow> chord_event list" where
  "events_timed [] = []"
| "events_timed [(t, l)] = [\<lparr>time = t, chord = l, duration = 1 / 2, confidence = 17 / 20\<rparr>]"
| "events_timed ((t, l) # (u, m) # rest) =
     \<lparr>time = t, chord = l, duration = u - t, confidence = 17 / 20\<rparr>
     # events_timed ((u, m) # rest)"

subsection \<open>First occurrence\<close>

text \<open>The position of the first occurrence of a label in a sequence.\<close>

definition first_index :: "string list \<Rightarrow> string \<Rightarrow> nat" where
  "first_index xs x = length (takeWhile (\<lambda>y. y \<noteq> x) xs)"

section \<open>The index-to-label mapping\<close>

lemma get_chord_name_table:
  "map get_chord_name [0, 1, 2, 3, 4, 5, 6, 7, 8, 9, 10, 11, 12, 13, 14, 15, 16, 17, 18,
     19, 20, 21, 22, 23, 24] = vocabulary"
  by (simp add: get_chord_name_def vocabulary_def CHORD_NAMES_def)

lemma upto_0_24:
  "[0..24::int] = [0, 1, 2, 3, 4, 5, 6, 7, 8, 9, 10, 11, 12, 13, 14, 15, 16, 17, 18,
     19, 20, 21, 22, 23, 24]"
  by code_simp

lemma distinct_vocabulary: "distinct vocabulary"
  by (simp add: vocabulary_def CHORD_NAMES_def)

text \<open>
  Claim C10. On the 25 classifier indices 0 to 24 the mapping \<open>_get_chord_name\<close> is total
  and injective: the label is \<open>N\<close> exactly at index 24, it is the root
  \<open>CHORD_NAMES[chord_idx mod 12]\<close> followed by \<open>:maj\<close> below 12 and by \<open>:min\<close> from 12 to
  23, distinct indices give distinct labels, and the image is the vocabulary of 25 labels.
\<close>

theorem get_chord_name_vocabulary:
  "(\<forall>i\<in>{0..24}.
      (get_chord_name i = ''N'' \<longleftrightarrow> i = 24) \<and>
      (i < 12 \<longrightarrow> get_chord_name i = CHORD_NAMES ! nat (i mod 12) @ '':maj'') \<and>
      (12 \<le> i \<and> i < 24 \<longrightarrow> get_chord_name i = CHORD_NAMES ! nat (i mod 12) @ '':min'')) \<and>
   inj_on get_chord_name {0..24} \<and>
   get_chord_name ` {0..24} = set vocabulary \<and>
   card (set vocabulary) = 25"
proof -
  have ivl: "{0..24::int} = set [0..24]"
    by simp
  have img: "get_chord_name ` {0..24} = set vocabulary"
    unfolding ivl upto_0_24 get_chord_name_table [symmetric] by (simp only: set_map)
  have "distinct (map get_chord_name [0..24])"
    unfolding upto_0_24 get_chord_name_table by (rule distinct_vocabulary)
  then have inj: "inj_on get_chord_name {0..24}"
    unfolding ivl by (simp only: distinct_map)
  have "length vocabulary = 25"
    by (simp add: vocabulary_def CHORD_NAMES_def)
  with distinct_card [OF distinct_vocabulary] have crd: "card (set vocabulary) = 25"
    by simp
  have n24: "get_chord_name 24 = ''N''"
    by (simp add: get_chord_name_def)
  have names: "\<forall>i\<in>{0..24}.
      (get_chord_name i = ''N'' \<longleftrightarrow> i = 24) \<and>
      (i < 12 \<longrightarrow> get_chord_name i = CHORD_NAMES ! nat (i mod 12) @ '':maj'') \<and>
      (12 \<le> i \<and> i < 24 \<longrightarrow> get_chord_name i = CHORD_NAMES ! nat (i mod 12) @ '':min'')"
  proof
    fix i :: int
    assume i: "i \<in> {0..24}"
    have "get_chord_name i = ''N'' \<longleftrightarrow> i = 24"
    proof
      assume "get_chord_name i = ''N''"
      then have "get_chord_name i = get_chord_name 24" by (simp only: n24)
      moreover have "(24::int) \<in> {0..24}" by simp
      ultimately show "i = 24" using inj i by (blast dest: inj_onD)
    next
      assume "i = 24" then show "get_chord_name i = ''N''" by (simp only: n24)
    qed
    moreover have "i < 12 \<longrightarrow> get_chord_name i = CHORD_NAMES ! nat (i mod 12) @ '':maj''"
      by (simp add: get_chord_name_def)
    moreover have "12 \<le> i \<and> i < 24 \<longrightarrow> get_chord_name i = CHORD_NAMES ! nat (i mod 12) @ '':min''"
      by (simp add: get_chord_name_def)
    ultimately show "(get_chord_name i = ''N'' \<longleftrightarrow> i = 24) \<and>
      (i < 12 \<longrightarrow> get_chord_name i = CHORD_NAMES ! nat (i mod 12) @ '':maj'') \<and>
      (12 \<le> i \<and> i < 24 \<longrightarrow> get_chord_name i = CHORD_NAMES ! nat (i mod 12) @ '':min'')"
      by blast
  qed
  from names inj img crd show ?thesis by blast
qed

theorem get_chord_name_vocabulary_witness:
  "get_chord_name 7 = ''G:maj'' \<and> get_chord_name 19 = ''G:min'' \<and>
   (get_chord_name 24 = ''N'') \<and> get_chord_name 7 \<noteq> get_chord_name 19"
proof -
  have m: "(7::int) \<in> {0..24}" "(19::int) \<in> {0..24}" "(24::int) \<in> {0..24}" by simp_all
  note t = get_chord_name_vocabulary
  from t m(1) have a: "get_chord_name 7 = CHORD_NAMES ! nat (7 mod 12) @ '':maj''" by simp
  from t m(2) have b: "get_chord_name 19 = CHORD_NAMES ! nat (19 mod 12) @ '':min''" by simp
  from t m(3) have c: "get_chord_name 24 = ''N''" by blast
  from t have "inj_on get_chord_name {0..24}" by blast
  from inj_onD [OF this _ m(1) m(2)] have d: "get_chord_name 7 \<noteq> get_chord_name 19" by auto
  from a b c d show ?thesis by (simp add: CHORD_NAMES_def)
qed

section \<open>The orchestrator and its failure policy\<close>

text \<open>
  The claim as stated fails: on a recognizer that raises, \<open>analyze\<close> returns a result, and
  its chords and sequence are empty.
\<close>

theorem analyze_swallows_failure_counterexample:
  "\<not> isl (analyze (Inl (Error ''decode failure''))) \<and>
   chords (projr (analyze (Inl (Error ''decode failure'')))) = [] \<and>
   chord_sequence (projr (analyze (Inl (Error ''decode failure'')))) = []"
  by (simp add: analyze_def)

text \<open>
  Claim C1, as amended. When the chord recognizer raises, \<open>ChordAnalyzer.analyze\<close> catches
  the exception and returns, as a successful result, the \<open>ChordProgression\<close> with empty
  chords, sequence, unique chords and transitions; no error propagates. The run is not
  aborted: when the file size, librosa and essentia succeed, \<open>analyze_audio\<close> goes on
  after the chord analysis (to the transcription, when lyrics are requested), and when
  the year of the metadata passes the validation of the document it returns the
  document, holding that empty progression.
\<close>

theorem analyze_swallows_failure:
  "analyze (Inl e) = Inr empty_progression \<and>
   (getsize_result world = Inr fsize \<and> librosa_result world = Inr (lf, dur, rate) \<and>
    essentia_result world = Inr ef \<and> madmom_result world = Inl e \<longrightarrow>
    fst (analyze_audio world audio_path src src_path extract_lyrics) =
      [MetadataStage, GetSizeStage, LibrosaStage, EssentiaStage, ChordStage] @
      (if extract_lyrics then [WhisperStage] else []) \<and>
    (validate_year (meta_year (metadata_result world)) (year_coercion world) = Inr yr \<longrightarrow>
      (\<exists>doc. snd (analyze_audio world audio_path src src_path extract_lyrics) = Inr doc \<and>
         chord_progression (features doc) = Some empty_progression)))"
  by (simp add: analyze_def empty_progression_def analyze_audio_def Let_def
      split: prod.splits sum.splits)

theorem analyze_swallows_failure_witness:
  "analyze (Inl (Error ''decode failure'')) = Inr empty_progression \<and>
   fst (analyze_audio
        (sample_world (Inr ((), 180, 44100)) (Inl (Error ''decode failure'')) False
           (Inl (Error ''unused'')))
        ''/tmp/song.mp3'' ''upload'' None False) =
      [MetadataStage, GetSizeStage, LibrosaStage, EssentiaStage, ChordStage] \<and>
   (\<exists>doc. snd (analyze_audio
        (sample_world (Inr ((), 180, 44100)) (Inl (Error ''decode failure'')) False
           (Inl (Error ''unused'')))
        ''/tmp/song.mp3'' ''upload'' None False) = Inr doc \<and>
      chord_progression (features doc) = Some empty_progression)"
  using analyze_swallows_failure [of "Error ''decode failure''"
      "sample_world (Inr ((), 180, 44100)) (Inl (Error ''decode failure'')) False
           (Inl (Error ''unused''))" 1024 "()" 180 44100 "()" "''/tmp/song.mp3''" "''upload''"
      None False "Some 1999"]
  by (simp add: sample_world_def validate_year_def)

text \<open>
  The claim as stated fails: metadata extraction has been called when librosa raises, and
  the caller receives the exception of librosa itself.
\<close>

theorem primary_extraction_failure_counterexample:
  "MetadataStage \<in> set (fst (analyze_audio
        (sample_world (Inl (Error ''cannot decode'')) (Inr [0, 0, 7]) False (Inl (Error ''unused'')))
        ''/tmp/song.mp3'' ''upload'' None True)) \<and>
   snd (analyze_audio
        (sample_world (Inl (Error ''cannot decode'')) (Inr [0, 0, 7]) False (Inl (Error ''unused'')))
        ''/tmp/song.mp3'' ''upload'' None True) = Inl (Error ''cannot decode'')"
  by (simp add: analyze_audio_def sample_world_def)

text \<open>
  Claim C2, as amended. When the file size is read and the primary (librosa) extraction
  raises, \<open>analyze_audio\<close> re-raises that very exception, returns no document, and has
  called metadata extraction, the file size and librosa only: essentia, the chord
  analysis and the transcription are never invoked.
\<close>

theorem primary_extraction_failure:
  "getsize_result world = Inr fsize \<Longrightarrow> librosa_result world = Inl e \<Longrightarrow>
   analyze_audio world audio_path src src_path extract_lyrics =
     ([MetadataStage, GetSizeStage, LibrosaStage], Inl e)"
  by (simp add: analyze_audio_def)

theorem primary_extraction_failure_witness:
  "analyze_audio
        (sample_world (Inl (Error ''cannot decode'')) (Inr [0, 0, 7]) False (Inl (Error ''unused'')))
        ''/tmp/song.mp3'' ''upload'' None True =
     ([MetadataStage, GetSizeStage, LibrosaStage], Inl (Error ''cannot decode''))"
  using primary_extraction_failure [of
      "sample_world (Inl (Error ''cannot decode'')) (Inr [0, 0, 7]) False (Inl (Error ''unused''))"
      1024 "Error ''cannot decode''" "''/tmp/song.mp3''" "''upload''" None True]
  by (simp add: sample_world_def)

lemma analyze_returns: "\<exists>progression. analyze r = Inr progression"
  by (cases r) (simp_all add: analyze_def)

text \<open>
  The transcription itself never aborts the run: with lyrics requested, when the file
  size, librosa and essentia succeed, the transcription fails (no client, or the API
  call raises) and the year passes the validation, the complete document is returned
  with the lyrics absent.
\<close>

lemma transcription_failure_keeps_document:
  assumes "getsize_result world = Inr fsize"
    and "librosa_result world = Inr (lf, dur, rate)"
    and "essentia_result world = Inr ef"
    and "\<not> whisper_has_client world \<or> whisper_api_result world = Inl e"
    and "validate_year (meta_year (metadata_result world)) (year_coercion world) = Inr yr"
  shows "\<exists>progression.
     analyze (madmom_result world) = Inr progression \<and>
     analyze_audio world audio_path src src_path True =
       ([MetadataStage, GetSizeStage, LibrosaStage, EssentiaStage, ChordStage, WhisperStage],
        Inr \<lparr>filename = basename audio_path, file_size = fsize, track_duration = dur,
             sample_rate = rate, source = src, source_path = src_path,
             title = meta_title (metadata_result world),
             artist = meta_artist (metadata_result world),
             album = meta_album (metadata_result world),
             genre = meta_genre (metadata_result world),
             year = yr,
             features =
               \<lparr>librosa = Some lf, essentia = Some ef,
                chord_progression = Some progression, lyrics = None\<rparr>,
             processing_time_total = Some (total_elapsed world)\<rparr>)"
proof -
  obtain progression where p: "analyze (madmom_result world) = Inr progression"
    using analyze_returns by blast
  have t: "transcribe (whisper_has_client world) (whisper_api_result world)
      (whisper_elapsed world) = None"
    using assms(4) by (auto simp: transcribe_def)
  show ?thesis
    using assms(1-3) assms(5) p t by (simp add: analyze_audio_def Let_def)
qed

text \<open>
  Claim C9 fails on the code. For a file whose date tag holds no run of four digits
  (here \<open>unknown\<close>), with lyrics requested, no Whisper client, and the file size,
  librosa, essentia and the chord analysis all succeeding, \<open>analyze_audio\<close> calls every
  stage and then raises the \<open>ValidationError\<close> of the document's constructor: no record
  is returned and an error reaches the caller.
\<close>

theorem transcription_failure_undated_file:
  "analyze_audio
     (undated_world (Inr ((), 180, 44100)) (Inr [0, 0, 7]) False (Inl (Error ''no client'')))
     ''/tmp/song.mp3'' ''upload'' None True =
   ([MetadataStage, GetSizeStage, LibrosaStage, EssentiaStage, ChordStage, WhisperStage],
    Inl (Error ''ValidationError''))"
  by (simp add: analyze_audio_def undated_world_def sample_world_def validate_year_def
      analyze_def transcribe_def)

section \<open>The worked example\<close>

lemma example_labels:
  "map get_chord_name [0, 0, 7, 7, 7] = [''C:maj'', ''C:maj'', ''G:maj'', ''G:maj'', ''G:maj'']"
  by (simp add: get_chord_name_def CHORD_NAMES_def)

lemma example_events:
  "detect_chords_madmom [0, 0, 7, 7, 7] =
     [\<lparr>time = 0, chord = ''C:maj'', duration = 1 / 5, confidence = 17 / 20\<rparr>,
      \<lparr>time = 1 / 5, chord = ''G:maj'', duration = 1 / 2, confidence = 17 / 20\<rparr>]"
  by (simp add: detect_chords_madmom_def detect_step_def fps_def get_chord_name_def
      CHORD_NAMES_def Let_def)

lemma example_summary:
  "analyze_chord_sequence
     [\<lparr>time = 0, chord = ''C:maj'', duration = 1 / 5, confidence = 17 / 20\<rparr>,
      \<lparr>time = 1 / 5, chord = ''G:maj'', duration = 1 / 2, confidence = 17 / 20\<rparr>] =
   \<lparr>chords =
       [\<lparr>time = 0, chord = ''C:maj'', duration = 1 / 5, confidence = 17 / 20\<rparr>,
        \<lparr>time = 1 / 5, chord = ''G:maj'', duration = 1 / 2, confidence = 17 / 20\<rparr>],
     chord_sequence = [''C:maj'', ''G:maj''],
     key = Some ''C'', mode = Some ''major'',
     unique_chords = {''C:maj'', ''G:maj''},
     chord_transitions = [(''C:maj -> G:maj'', 1)],
     most_common_chord = Some ''C:maj'',
     analyzer_used = ''madmom'',
     confidence_mean = Some (17 / 20)\<rparr>"
  by (simp add: analyze_chord_sequence_def count_transitions_def transition_step_def
      Counter_def dict_get_def most_common_1_def estimate_key_def Let_def)

text \<open>
  The claim as stated fails on the five frames C:maj, C:maj, G:maj, G:maj, G:maj (the
  indices 0, 0, 7, 7, 7): the last duration is not 0.3, the most common chord is not
  G:maj and the key is not G.
\<close>

theorem example_counterexample:
  "map get_chord_name [0, 0, 7, 7, 7] = [''C:maj'', ''C:maj'', ''G:maj'', ''G:maj'', ''G:maj''] \<and>
   map duration (detect_chords_madmom [0, 0, 7, 7, 7]) \<noteq> [1 / 5, 3 / 10] \<and>
   most_common_chord (analyze_chord_sequence (detect_chords_madmom [0, 0, 7, 7, 7]))
     \<noteq> Some ''G:maj'' \<and>
   key (analyze_chord_sequence (detect_chords_madmom [0, 0, 7, 7, 7])) \<noteq> Some ''G''"
  by (simp only: example_labels example_events example_summary) simp

text \<open>
  Claim C3, as amended. For the frames C:maj, C:maj, G:maj, G:maj, G:maj at 10 Hz the merge
  produces exactly two events, C:maj from 0.0 lasting 0.2 and G:maj from 0.2 lasting the
  fixed 0.5, both with confidence 0.85; the sequence is C:maj, G:maj; the only transition
  is \<open>C:maj -> G:maj\<close>, counted once; each label occurs once in the sequence, so the most
  common chord is the first seen, C:maj, the key is C and the mode is major.
\<close>

theorem example_merge_and_summary:
  "map get_chord_name [0, 0, 7, 7, 7] = [''C:maj'', ''C:maj'', ''G:maj'', ''G:maj'', ''G:maj''] \<and>
   detect_chords_madmom [0, 0, 7, 7, 7] =
     [\<lparr>time = 0, chord = ''C:maj'', duration = 1 / 5, confidence = 17 / 20\<rparr>,
      \<lparr>time = 1 / 5, chord = ''G:maj'', duration = 1 / 2, confidence = 17 / 20\<rparr>] \<and>
   analyze_chord_sequence (detect_chords_madmom [0, 0, 7, 7, 7]) =
     \<lparr>chords =
        [\<lparr>time = 0, chord = ''C:maj'', duration = 1 / 5, confidence = 17 / 20\<rparr>,
         \<lparr>time = 1 / 5, chord = ''G:maj'', duration = 1 / 2, confidence = 17 / 20\<rparr>],
      chord_sequence = [''C:maj'', ''G:maj''],
      key = Some ''C'', mode = Some ''major'',
      unique_chords = {''C:maj'', ''G:maj''},
      chord_transitions = [(''C:maj -> G:maj'', 1)],
      most_common_chord = Some ''C:maj'',
      analyzer_used = ''madmom'',
      confidence_mean = Some (17 / 20)\<rparr>"
  by (simp only: example_labels example_events example_summary)

section \<open>The transition table\<close>

lemma dict_set_increment_sum:
  "sum_list (map snd (dict_set d k (dict_get d k 0 + 1))) = sum_list (map snd d) + 1"
  by (induction d) (auto simp: dict_get_def)

lemma dict_set_keys:
  "map fst (dict_set d k v) = (if k \<in> set (map fst d) then map fst d else map fst d @ [k])"
  by (induction d) (force+)

lemma dict_set_length: "length (dict_set d k v) \<le> Suc (length d)"
  using arg_cong [OF dict_set_keys [of d k v], of length] by (simp split: if_splits)

lemma dict_set_distinct: "distinct (map fst d) \<Longrightarrow> distinct (map fst (dict_set d k v))"
  by (simp add: dict_set_keys)

lemma transition_fold_sum:
  "sum_list (map snd (fold (transition_step s) idxs d)) =
     sum_list (map snd d) + int (length idxs)"
  by (induction idxs arbitrary: d)
     (simp_all add: transition_step_def Let_def dict_set_increment_sum)

lemma transition_fold_length:
  "length (fold (transition_step s) idxs d) \<le> length d + length idxs"
proof (induction idxs arbitrary: d)
  case Nil
  show ?case by simp
next
  case (Cons i idxs)
  have "length (fold (transition_step s) idxs (transition_step s i d))
      \<le> length (transition_step s i d) + length idxs"
    by (rule Cons.IH)
  also have "length (transition_step s i d) \<le> Suc (length d)"
    by (simp add: transition_step_def Let_def dict_set_length)
  finally show ?case by simp
qed

lemma transition_fold_distinct:
  "distinct (map fst d) \<Longrightarrow> distinct (map fst (fold (transition_step s) idxs d))"
  by (induction idxs arbitrary: d)
     (simp_all add: transition_step_def Let_def dict_set_distinct)

lemma count_transitions_sum:
  "sum_list (map snd (count_transitions s)) = int (length s - 1)"
  by (simp add: count_transitions_def transition_fold_sum)

lemma count_transitions_length: "length (count_transitions s) \<le> length s - 1"
  using transition_fold_length [of s "[0..<length s - 1]" "[]"]
  by (simp add: count_transitions_def)

lemma count_transitions_distinct: "distinct (map fst (count_transitions s))"
  by (simp add: count_transitions_def transition_fold_distinct)

lemma analyze_chord_sequence_fields:
  "chord_sequence (analyze_chord_sequence data) = map chord data"
  "chord_transitions (analyze_chord_sequence data) = count_transitions (map chord data)"
  "chords (analyze_chord_sequence data) = data"
  "unique_chords (analyze_chord_sequence data) = set (map chord data)"
  by (simp_all add: analyze_chord_sequence_def Let_def count_transitions_def split: prod.splits)

text \<open>
  Claim C6. In every summary that \<open>_analyze_chord_sequence\<close> produces, the transition counts
  add up to \<open>max(len(sequence) - 1, 0)\<close>, the keys of the table are distinct, and for a
  non-empty sequence there are at most \<open>len(sequence) - 1\<close> of them.
\<close>

theorem transition_table_counts:
  "sum_list (map snd (chord_transitions (analyze_chord_sequence data))) =
     max (int (length (chord_sequence (analyze_chord_sequence data))) - 1) 0 \<and>
   distinct (map fst (chord_transitions (analyze_chord_sequence data))) \<and>
   (chord_sequence (analyze_chord_sequence data) \<noteq> [] \<longrightarrow>
      int (length (chord_transitions (analyze_chord_sequence data))) \<le>
        int (length (chord_sequence (analyze_chord_sequence data))) - 1)"
proof -
  let ?s = "map chord data"
  have "sum_list (map snd (count_transitions ?s)) = max (int (length ?s) - 1) 0"
    by (simp add: count_transitions_sum)
  moreover have "?s \<noteq> [] \<longrightarrow> int (length (count_transitions ?s)) \<le> int (length ?s) - 1"
    using count_transitions_length [of ?s] by (cases data) auto
  moreover note count_transitions_distinct [of ?s]
  ultimately show ?thesis
    by (simp only: analyze_chord_sequence_fields)
qed

theorem transition_table_counts_witness:
  "sum_list (map snd (chord_transitions (analyze_chord_sequence (detect_chords_madmom [0, 7, 0, 7])))) = 3 \<and>
   length (chord_transitions (analyze_chord_sequence (detect_chords_madmom [0, 7, 0, 7]))) \<le> 3 \<and>
   chord_sequence (analyze_chord_sequence (detect_chords_madmom [0, 7, 0, 7])) =
     [''C:maj'', ''G:maj'', ''C:maj'', ''G:maj'']"
proof -
  have s: "chord_sequence (analyze_chord_sequence (detect_chords_madmom [0, 7, 0, 7])) =
     [''C:maj'', ''G:maj'', ''C:maj'', ''G:maj'']"
    by (simp add: analyze_chord_sequence_fields detect_chords_madmom_def detect_step_def
        fps_def get_chord_name_def CHORD_NAMES_def Let_def)
  from transition_table_counts [of "detect_chords_madmom [0, 7, 0, 7]"] s
  show ?thesis by simp
qed

section \<open>The run-length merge\<close>

lemma events_of_Cons:
  "events_of ((i, l) # bs) =
     \<lparr>time = of_nat i / of_nat fps, chord = l,
      duration = (case bs of [] \<Rightarrow> 1 / 2
                  | (j, m) # rest \<Rightarrow> of_nat j / of_nat fps - of_nat i / of_nat fps),
      confidence = 17 / 20\<rparr> # events_of bs"
  by (cases bs) auto

lemma detect_loop_pending:
  "prev_chord st = Some pc \<Longrightarrow> prev_time st = of_nat s / of_nat fps \<Longrightarrow>
   finish (detect_loop k cs st) =
     chords_data st @ events_of ((s, pc) # starts_from k (Some pc) (map get_chord_name cs))"
proof (induction cs arbitrary: k st s pc)
  case Nil
  then show ?case by (simp add: finish_def)
next
  case (Cons c cs)
  show ?case
  proof (cases "get_chord_name c = pc")
    case True
    with Cons.prems have "detect_step k c st = st"
      by (simp add: detect_step_def)
    with Cons.IH [OF Cons.prems] True show ?thesis by simp
  next
    case False
    let ?st = "detect_step k c st"
    from False Cons.prems have
      p: "prev_chord ?st = Some (get_chord_name c)" and
      t: "prev_time ?st = of_nat k / of_nat fps" and
      d: "chords_data ?st = chords_data st @
            [\<lparr>time = of_nat s / of_nat fps, chord = pc,
              duration = of_nat k / of_nat fps - of_nat s / of_nat fps,
              confidence = 17 / 20\<rparr>]"
      by (simp_all add: detect_step_def Let_def)
    from Cons.IH [OF p t, of "Suc k"] d False show ?thesis by simp
  qed
qed

lemma detect_loop_initial:
  "prev_chord st = None \<Longrightarrow>
   finish (detect_loop k cs st) =
     chords_data st @ events_of (starts_from k None (map get_chord_name cs))"
proof (cases cs)
  case Nil
  assume "prev_chord st = None"
  with Nil show ?thesis by (simp add: finish_def)
next
  case (Cons c cs')
  assume n: "prev_chord st = None"
  let ?st = "detect_step k c st"
  from n have
    p: "prev_chord ?st = Some (get_chord_name c)" and
    t: "prev_time ?st = of_nat k / of_nat fps" and
    d: "chords_data ?st = chords_data st"
    by (simp_all add: detect_step_def Let_def)
  from detect_loop_pending [OF p t, of "Suc k" cs'] d Cons show ?thesis by simp
qed

lemma detect_chords_madmom_merge:
  "detect_chords_madmom cs = events_of (starts_from 0 None (map get_chord_name cs))"
proof -
  have "detect_chords_madmom cs =
      finish (detect_loop 0 cs \<lparr>chords_data = [], prev_chord = None, prev_time = 0\<rparr>)"
    by (simp add: detect_chords_madmom_def finish_def Let_def)
  then show ?thesis by (simp add: detect_loop_initial)
qed

lemma events_of_length: "length (events_of bs) = length bs"
  by (induction bs rule: events_of.induct) auto

lemma events_of_time: "map time (events_of bs) = map (\<lambda>b. of_nat (fst b) / of_nat fps) bs"
  by (induction bs rule: events_of.induct) auto

lemma events_of_chord: "map chord (events_of bs) = map snd bs"
  by (induction bs rule: events_of.induct) auto

lemma events_of_confidence: "e \<in> set (events_of bs) \<Longrightarrow> confidence e = 17 / 20"
  by (induction bs rule: events_of.induct) auto

lemma events_of_duration:
  "j < length bs \<Longrightarrow>
   duration (events_of bs ! j) =
     (if Suc j < length bs then time (events_of bs ! Suc j) - time (events_of bs ! j)
      else 1 / 2)"
proof (induction bs arbitrary: j rule: events_of.induct)
  case 1
  then show ?case by simp
next
  case (2 i l)
  then show ?case by simp
next
  case (3 i l k m rest)
  show ?case
  proof (cases j)
    case 0
    then show ?thesis by (simp add: events_of_Cons [of k m rest])
  next
    case (Suc j')
    with 3 show ?thesis by simp
  qed
qed

lemma starts_from_filter:
  "starts_from k p ls =
     map (\<lambda>i. (i, ls ! (i - k)))
       (filter (\<lambda>i. Some (ls ! (i - k)) \<noteq> (if i = k then p else Some (ls ! (i - k - 1))))
          [k..<k + length ls])"
proof (induction ls arbitrary: k p)
  case Nil
  show ?case by simp
next
  case (Cons l ls)
  let ?tail = "[Suc k..<Suc k + length ls]"
  let ?P = "\<lambda>i. Some ((l # ls) ! (i - k)) \<noteq>
              (if i = k then p else Some ((l # ls) ! (i - k - 1)))"
  let ?Q = "\<lambda>q i. Some (ls ! (i - Suc k)) \<noteq>
              (if i = Suc k then q else Some (ls ! (i - Suc k - 1)))"
  let ?g = "\<lambda>i. (i, (l # ls) ! (i - k))"
  let ?h = "\<lambda>i. (i, ls ! (i - Suc k))"
  have ivl: "[k..<k + length (l # ls)] = k # ?tail"
    by (simp add: upt_conv_Cons del: upt_Suc)
  have f: "filter ?P ?tail = filter (?Q (Some l)) ?tail"
  proof (rule filter_cong [OF refl])
    fix x
    assume "x \<in> set ?tail"
    then have "Suc k \<le> x" by (simp only: set_upt atLeastLessThan_iff)
    then obtain d where x: "x = Suc k + d"
      using le_Suc_ex by blast
    show "?P x = ?Q (Some l) x"
      unfolding x by (cases d) simp_all
  qed
  have m: "map ?g (filter (?Q q) ?tail) = map ?h (filter (?Q q) ?tail)" for q
  proof (rule map_cong [OF refl])
    fix x
    assume "x \<in> set (filter (?Q q) ?tail)"
    then have "x \<in> set ?tail" by (simp only: set_filter) blast
    then have "Suc k \<le> x" by (simp only: set_upt atLeastLessThan_iff)
    then obtain d where x: "x = Suc k + d"
      using le_Suc_ex by blast
    show "?g x = ?h x"
      unfolding x by simp
  qed
  have pk: "?P k \<longleftrightarrow> Some l \<noteq> p" by simp
  have "map ?g (filter ?P [k..<k + length (l # ls)]) =
      (if Some l \<noteq> p then [(k, l)] else []) @ map ?g (filter ?P ?tail)"
    unfolding ivl by (simp only: filter.simps pk) simp
  also have "map ?g (filter ?P ?tail) = map ?h (filter (?Q (Some l)) ?tail)"
    by (simp only: f m)
  finally have rhs: "map ?g (filter ?P [k..<k + length (l # ls)]) =
      (if Some l \<noteq> p then [(k, l)] else []) @ map ?h (filter (?Q (Some l)) ?tail)" .
  show ?case
  proof (cases "Some l = p")
    case True
    have "starts_from k p (l # ls) = starts_from (Suc k) (Some l) ls"
      using True by auto
    also have "\<dots> = map ?h (filter (?Q (Some l)) ?tail)"
      by (rule Cons.IH)
    finally show ?thesis
      using True by (simp only: rhs) simp
  next
    case False
    have "starts_from k p (l # ls) = (k, l) # starts_from (Suc k) (Some l) ls"
      using False by simp
    also have "starts_from (Suc k) (Some l) ls = map ?h (filter (?Q (Some l)) ?tail)"
      by (rule Cons.IH)
    finally show ?thesis
      using False by (simp only: rhs) simp
  qed
qed

lemma starts_from_segment_starts:
  "starts_from 0 None ls = map (\<lambda>i. (i, ls ! i)) (segment_starts ls)"
proof -
  have "filter (\<lambda>i. Some (ls ! (i - 0)) \<noteq> (if i = 0 then None else Some (ls ! (i - 0 - 1))))
          [0..<0 + length ls] = segment_starts ls"
    unfolding segment_starts_def by (rule filter_cong) auto
  with starts_from_filter [of 0 None ls] show ?thesis by simp
qed


lemma events_of_duration_sum:
  "bs \<noteq> [] \<Longrightarrow>
   sum_list (map duration (events_of bs)) =
     of_nat (fst (last bs)) / of_nat fps - of_nat (fst (hd bs)) / of_nat fps + 1 / 2"
  by (induction bs rule: events_of.induct) auto

lemma starts_from_empty: "starts_from k p ls = [] \<longleftrightarrow> (\<forall>x\<in>set ls. Some x = p)"
  by (induction ls arbitrary: k p) auto

lemma takeWhile_snoc:
  "takeWhile P (xs @ [y]) =
     (if \<forall>x\<in>set xs. P x then xs @ (if P y then [y] else []) else takeWhile P xs)"
  by (induction xs) auto

lemma final_run_length_Cons:
  assumes "ls \<noteq> []"
  shows "final_run_length (l # ls) =
     (if (\<forall>x\<in>set ls. x = last ls) \<and> l = last ls then Suc (length ls)
      else final_run_length ls)"
proof -
  have "final_run_length (l # ls) = length (takeWhile (\<lambda>x. x = last ls) (rev ls @ [l]))"
    using assms by (simp add: final_run_length_def)
  also have "\<dots> =
      (if \<forall>x\<in>set ls. x = last ls then length ls + (if l = last ls then 1 else 0)
       else length (takeWhile (\<lambda>x. x = last ls) (rev ls)))"
    by (simp add: takeWhile_snoc)
  also have "\<dots> =
      (if (\<forall>x\<in>set ls. x = last ls) \<and> l = last ls then Suc (length ls)
       else final_run_length ls)"
  proof (cases "\<forall>x\<in>set ls. x = last ls")
    case True
    then have "takeWhile (\<lambda>x. x = last ls) (rev ls) = rev ls"
      by (simp add: takeWhile_eq_all_conv)
    then have "final_run_length ls = length ls"
      unfolding final_run_length_def by (simp only: length_rev)
    with True show ?thesis by simp
  next
    case False
    then show ?thesis by (auto simp: final_run_length_def)
  qed
  finally show ?thesis .
qed

lemma starts_from_last:
  "starts_from k p ls \<noteq> [] \<Longrightarrow>
   fst (last (starts_from k p ls)) + final_run_length ls = k + length ls"
proof (induction ls arbitrary: k p)
  case Nil
  then show ?case by simp
next
  case (Cons l ls)
  show ?case
  proof (cases "ls = []")
    case True
    with Cons.prems show ?thesis
      by (auto simp: final_run_length_def split: if_splits)
  next
    case ne: False
    let ?q = "if Some l \<noteq> p then Some l else p"
    show ?thesis
    proof (cases "starts_from (Suc k) ?q ls = []")
      case True
      then have all: "\<forall>x\<in>set ls. Some x = ?q"
        unfolding starts_from_empty .
      from Cons.prems True have new: "Some l \<noteq> p"
        by (auto split: if_splits)
      with all have eq: "\<forall>x\<in>set ls. x = l" by auto
      with ne have "last ls = l" by (metis last_in_set)
      with eq have "(\<forall>x\<in>set ls. x = last ls) \<and> l = last ls" by simp
      with final_run_length_Cons [OF ne, of l]
      have "final_run_length (l # ls) = Suc (length ls)"
        by auto
      moreover from True new have "starts_from k p (l # ls) = [(k, l)]" by simp
      ultimately show ?thesis by simp
    next
      case False
      then have "\<not> (\<forall>x\<in>set ls. Some x = ?q)"
        unfolding starts_from_empty .
      then have "\<not> ((\<forall>x\<in>set ls. x = last ls) \<and> l = last ls)"
        using Cons.prems by (auto split: if_splits)
      with final_run_length_Cons [OF ne, of l]
      have r: "final_run_length (l # ls) = final_run_length ls"
        by auto
      from False have "fst (last (starts_from k p (l # ls))) =
          fst (last (starts_from (Suc k) ?q ls))"
        by (auto split: if_splits)
      with Cons.IH [OF False] r show ?thesis by simp
    qed
  qed
qed

lemma final_run_length_le: "final_run_length ls \<le> length ls"
  using length_takeWhile_le [of "\<lambda>l. l = last ls" "rev ls"]
  by (simp add: final_run_length_def)

lemma detect_duration_sum:
  assumes "frames \<noteq> []"
  shows "sum_list (map duration (detect_chords_madmom frames)) =
     of_nat (length frames - final_run_length (map get_chord_name frames)) / of_nat fps + 1 / 2"
proof -
  let ?ls = "map get_chord_name frames"
  let ?bs = "starts_from 0 None ?ls"
  from assms obtain c cs where c: "frames = c # cs" by (cases frames) auto
  then have ne: "?bs \<noteq> []" by simp
  from c have h: "fst (hd ?bs) = 0" by simp
  from starts_from_last [OF ne] have
    "fst (last ?bs) = length frames - final_run_length ?ls" by simp
  with events_of_duration_sum [OF ne] h show ?thesis
    by (simp add: detect_chords_madmom_merge)
qed

text \<open>
  Claim C5. For every frame sequence, the events of the merge start exactly at frame 0
  and at the frames whose label differs from the previous frame's label, at the time
  \<open>frame_idx / fps\<close> and with that frame's label; the duration of an event is the start of
  the next event minus its own start, and that of the final event is the constant 0.5;
  every event has confidence 0.85.
\<close>

theorem run_length_merge:
  "map time (detect_chords_madmom frames) =
     map (\<lambda>i. of_nat i / of_nat fps) (segment_starts (map get_chord_name frames)) \<and>
   map chord (detect_chords_madmom frames) =
     map (\<lambda>i. map get_chord_name frames ! i) (segment_starts (map get_chord_name frames)) \<and>
   (\<forall>j < length (detect_chords_madmom frames).
      duration (detect_chords_madmom frames ! j) =
        (if Suc j < length (detect_chords_madmom frames)
         then time (detect_chords_madmom frames ! Suc j) - time (detect_chords_madmom frames ! j)
         else 1 / 2)) \<and>
   (\<forall>e \<in> set (detect_chords_madmom frames). confidence e = 17 / 20)"
proof -
  let ?ls = "map get_chord_name frames"
  let ?bs = "starts_from 0 None ?ls"
  have d: "detect_chords_madmom frames = events_of ?bs"
    by (rule detect_chords_madmom_merge)
  have t: "map time (events_of ?bs) = map (\<lambda>i. of_nat i / of_nat fps) (segment_starts ?ls)"
    by (simp add: events_of_time starts_from_segment_starts comp_def)
  have c: "map chord (events_of ?bs) = map (\<lambda>i. ?ls ! i) (segment_starts ?ls)"
    by (simp add: events_of_chord starts_from_segment_starts comp_def)
  have u: "\<forall>j < length (events_of ?bs).
      duration (events_of ?bs ! j) =
        (if Suc j < length (events_of ?bs)
         then time (events_of ?bs ! Suc j) - time (events_of ?bs ! j) else 1 / 2)"
    using events_of_duration [of _ ?bs] by (simp add: events_of_length)
  have f: "\<forall>e \<in> set (events_of ?bs). confidence e = 17 / 20"
    using events_of_confidence by blast
  from t c u f show ?thesis unfolding d by blast
qed

lemma example_segment_starts:
  "segment_starts [''C:maj'', ''C:maj'', ''G:maj'', ''G:maj'', ''G:maj''] = [0, 2]"
  by (simp add: segment_starts_def upt_rec)

theorem run_length_merge_witness:
  "map time (detect_chords_madmom [0, 0, 7, 7, 7]) = [0, 2 / of_nat fps] \<and>
   map chord (detect_chords_madmom [0, 0, 7, 7, 7]) = [''C:maj'', ''G:maj''] \<and>
   duration (detect_chords_madmom [0, 0, 7, 7, 7] ! 0) = 1 / 5 - 0 \<and>
   duration (detect_chords_madmom [0, 0, 7, 7, 7] ! 1) = 1 / 2 \<and>
   confidence (detect_chords_madmom [0, 0, 7, 7, 7] ! 0) = 17 / 20"
proof -
  note t = run_length_merge [of "[0, 0, 7, 7, 7]", unfolded example_labels example_segment_starts]
  have l: "length (detect_chords_madmom [0, 0, 7, 7, 7]) = 2"
    by (simp add: example_events)
  have m: "detect_chords_madmom [0, 0, 7, 7, 7] ! 0 \<in> set (detect_chords_madmom [0, 0, 7, 7, 7])"
    by (simp add: example_events)
  from t have "map time (detect_chords_madmom [0, 0, 7, 7, 7]) = [0, 2 / of_nat fps]"
    by simp
  moreover from t have "map chord (detect_chords_madmom [0, 0, 7, 7, 7]) = [''C:maj'', ''G:maj'']"
    by simp
  moreover from t l have "duration (detect_chords_madmom [0, 0, 7, 7, 7] ! 0) =
      time (detect_chords_madmom [0, 0, 7, 7, 7] ! Suc 0) - time (detect_chords_madmom [0, 0, 7, 7, 7] ! 0)"
    by simp
  then have "duration (detect_chords_madmom [0, 0, 7, 7, 7] ! 0) = 1 / 5 - 0"
    by (simp add: example_events)
  moreover from t l have "duration (detect_chords_madmom [0, 0, 7, 7, 7] ! 1) = 1 / 2"
    by simp
  moreover from t m have "confidence (detect_chords_madmom [0, 0, 7, 7, 7] ! 0) = 17 / 20"
    by blast
  ultimately show ?thesis by blast
qed

section \<open>The sum of the durations\<close>

text \<open>
  The claim as stated fails on ten frames of C:maj, one second of audio: the only event
  has the duration 0.5, which is 0.5 away from the 1.0 seconds the frames span, and 0.4
  away from 0.9, the time of the last frame.
\<close>

theorem duration_sum_counterexample:
  "sum_list (map duration (detect_chords_madmom [0, 0, 0, 0, 0, 0, 0, 0, 0, 0])) = 1 / 2 \<and>
   \<not> \<bar>1 / 2 - of_nat (length [0, 0, 0, 0, 0, 0, 0, 0, 0, 0 :: int]) / of_nat fps\<bar>
       \<le> (1 / of_nat fps :: rat) \<and>
   \<not> \<bar>1 / 2 - 9 / of_nat fps\<bar> \<le> (1 / of_nat fps :: rat)"
  by (simp add: detect_chords_madmom_def detect_step_def fps_def get_chord_name_def
      CHORD_NAMES_def Let_def)

text \<open>
  In exact arithmetic the sum is \<open>(n - L) / fps + 1/2\<close> for n frames with a last run of L
  frames (lemma \<open>detect_duration_sum\<close>). The bounds below each leave a margin of one
  frame period, so that the rounding of the program's floating-point numbers does not
  decide them.
\<close>

lemma duration_sum_gap:
  assumes "frames \<noteq> []"
  shows "sum_list (map duration (detect_chords_madmom frames)) - of_nat (length frames) / of_nat fps =
     (5 - of_nat (final_run_length (map get_chord_name frames))) / (10 :: rat)"
proof -
  have le: "final_run_length (map get_chord_name frames) \<le> length frames"
    using final_run_length_le [of "map get_chord_name frames"] by simp
  show ?thesis
    unfolding detect_duration_sum [OF assms] using le
    by (simp add: fps_def of_nat_diff field_simps)
qed

text \<open>
  Claim C4, as amended. For every non-empty sequence of frames whose last run has L
  frames: when L is 5, the durations of the events add up to the duration the frames
  span, \<open>n / fps\<close>, within less than one frame period; when L is at most 3 the sum
  exceeds it by more than \<open>4 - L\<close> frame periods, and when L is at least 7 the sum falls
  short of it by more than \<open>L - 6\<close> frame periods, in both cases by more than one frame
  period.
\<close>

theorem duration_sum:
  assumes "frames \<noteq> []"
  shows "(final_run_length (map get_chord_name frames) = 5 \<longrightarrow>
       \<bar>sum_list (map duration (detect_chords_madmom frames)) -
          of_nat (length frames) / of_nat fps\<bar> < 1 / of_nat fps) \<and>
     (final_run_length (map get_chord_name frames) \<le> 3 \<longrightarrow>
       of_nat (4 - final_run_length (map get_chord_name frames)) / of_nat fps <
         sum_list (map duration (detect_chords_madmom frames)) -
           of_nat (length frames) / of_nat fps) \<and>
     (7 \<le> final_run_length (map get_chord_name frames) \<longrightarrow>
       of_nat (final_run_length (map get_chord_name frames) - 6) / of_nat fps <
         of_nat (length frames) / of_nat fps -
           sum_list (map duration (detect_chords_madmom frames)))"
proof -
  define L where "L = final_run_length (map get_chord_name frames)"
  define gap where "gap = sum_list (map duration (detect_chords_madmom frames)) -
    of_nat (length frames) / of_nat fps"
  have g: "gap = (5 - of_nat L) / (10 :: rat)"
    unfolding gap_def L_def by (rule duration_sum_gap [OF assms])
  have a: "L = 5 \<longrightarrow> \<bar>gap\<bar> < 1 / of_nat fps"
    by (simp add: g fps_def)
  have b: "L \<le> 3 \<longrightarrow> of_nat (4 - L) / of_nat fps < gap"
    by (simp add: g fps_def of_nat_diff field_simps)
  have c: "7 \<le> L \<longrightarrow> of_nat (L - 6) / of_nat fps < - gap"
    by (simp add: g fps_def of_nat_diff field_simps)
  from a b c show ?thesis
    unfolding gap_def L_def by simp
qed

lemma example_final_runs:
  "final_run_length (map get_chord_name [0, 0, 7, 7, 7]) = 3"
  "final_run_length (map get_chord_name [7, 0, 0, 0, 0, 0]) = 5"
  "final_run_length (map get_chord_name [0, 0, 0, 0, 0, 0, 0, 0, 0, 0]) = 10"
  by (simp_all add: final_run_length_def get_chord_name_def CHORD_NAMES_def)

theorem duration_sum_witness:
  "1 / of_nat fps <
     sum_list (map duration (detect_chords_madmom [0, 0, 7, 7, 7])) - 5 / of_nat fps \<and>
   \<bar>sum_list (map duration (detect_chords_madmom [7, 0, 0, 0, 0, 0])) - 6 / of_nat fps\<bar>
     < 1 / of_nat fps \<and>
   4 / of_nat fps <
     10 / of_nat fps - sum_list (map duration (detect_chords_madmom [0, 0, 0, 0, 0, 0, 0, 0, 0, 0]))"
proof -
  have n: "[0, 0, 7, 7, 7 :: int] \<noteq> []" "[7, 0, 0, 0, 0, 0 :: int] \<noteq> []"
    "[0, 0, 0, 0, 0, 0, 0, 0, 0, 0 :: int] \<noteq> []"
    by simp_all
  from duration_sum [OF n(1), unfolded example_final_runs]
  have a: "1 / of_nat fps <
     sum_list (map duration (detect_chords_madmom [0, 0, 7, 7, 7])) - 5 / of_nat fps"
    by simp
  from duration_sum [OF n(2), unfolded example_final_runs]
  have b: "\<bar>sum_list (map duration (detect_chords_madmom [7, 0, 0, 0, 0, 0])) - 6 / of_nat fps\<bar>
     < 1 / of_nat fps"
    by simp
  from duration_sum [OF n(3), unfolded example_final_runs]
  have c: "4 / of_nat fps <
     10 / of_nat fps - sum_list (map duration (detect_chords_madmom [0, 0, 0, 0, 0, 0, 0, 0, 0, 0]))"
    by simp
  from a b c show ?thesis by (intro conjI)
qed

section \<open>Merging a merged sequence again\<close>

lemma detect_step_timed:
  "detect_step k c st = timed_step (of_nat k / of_nat fps) (get_chord_name c) st"
  by (simp add: detect_step_def timed_step_def Let_def)

lemma detect_loop_timed:
  "detect_loop k cs st =
     timed_loop (zip (map (\<lambda>i. of_nat i / of_nat fps) [k..<k + length cs])
       (map get_chord_name cs)) st"
proof (induction cs arbitrary: k st)
  case Nil
  show ?case by simp
next
  case (Cons c cs)
  have ivl: "[k..<k + length (c # cs)] = k # [Suc k..<Suc k + length cs]"
    by (simp add: upt_conv_Cons del: upt_Suc)
  show ?case
    unfolding ivl by (simp add: Cons.IH detect_step_timed del: upt_Suc)
qed

lemma detect_chords_madmom_timed:
  "detect_chords_madmom frames = merge_timed (timed_frames frames)"
  using detect_loop_timed [of 0 frames]
  by (simp add: detect_chords_madmom_def merge_timed_def timed_frames_def finish_def Let_def)

lemma timed_loop_pending:
  "prev_chord st = Some pc \<Longrightarrow>
   finish (timed_loop fs st) =
     chords_data st @ events_timed ((prev_time st, pc) # changes (Some pc) fs)"
proof (induction fs arbitrary: st pc)
  case Nil
  then show ?case by (simp add: finish_def)
next
  case (Cons f fs)
  obtain t l where f: "f = (t, l)" by (cases f)
  show ?case
  proof (cases "l = pc")
    case True
    with Cons.prems have "timed_step t l st = st"
      by (simp add: timed_step_def)
    with Cons.IH [OF Cons.prems] True f show ?thesis by simp
  next
    case False
    let ?st = "timed_step t l st"
    from False Cons.prems have
      p: "prev_chord ?st = Some l" and
      u: "prev_time ?st = t" and
      d: "chords_data ?st = chords_data st @
            [\<lparr>time = prev_time st, chord = pc, duration = t - prev_time st,
              confidence = 17 / 20\<rparr>]"
      by (simp_all add: timed_step_def Let_def)
    from Cons.IH [OF p] u d False f show ?thesis by simp
  qed
qed

lemma merge_timed_changes: "merge_timed fs = events_timed (changes None fs)"
proof (cases fs)
  case Nil
  then show ?thesis by (simp add: merge_timed_def finish_def)
next
  case (Cons f fs')
  obtain t l where f: "f = (t, l)" by (cases f)
  let ?init = "\<lparr>chords_data = [], prev_chord = None, prev_time = 0\<rparr>"
  let ?st = "timed_step t l ?init"
  have p: "prev_chord ?st = Some l" and u: "prev_time ?st = t" and d: "chords_data ?st = []"
    by (simp_all add: timed_step_def Let_def)
  from timed_loop_pending [OF p, of fs'] u d Cons f show ?thesis
    by (simp add: merge_timed_def)
qed

lemma events_timed_frames: "map as_frame (events_timed bs) = bs"
  by (induction bs rule: events_timed.induct) (simp_all add: as_frame_def)

lemma changes_idem: "changes p (changes p fs) = changes p fs"
proof (induction fs arbitrary: p)
  case Nil
  show ?case by simp
next
  case (Cons f fs)
  obtain t l where f: "f = (t, l)" by (cases f)
  show ?case
    unfolding f by (simp add: Cons.IH)
qed

lemma changes_distinct_adj:
  "distinct_adj (map snd bs) \<Longrightarrow> (bs = [] \<or> Some (snd (hd bs)) \<noteq> p) \<Longrightarrow> changes p bs = bs"
proof (induction bs arbitrary: p)
  case Nil
  show ?case by simp
next
  case (Cons b bs)
  obtain t l where b: "b = (t, l)" by (cases b)
  from Cons.prems(2) b have lp: "Some l \<noteq> p" by simp
  from Cons.prems(1) b have da: "distinct_adj (map snd bs)"
    by (cases bs) simp_all
  from Cons.prems(1) b have hd: "bs = [] \<or> Some (snd (hd bs)) \<noteq> Some l"
    by (cases bs) auto
  from da hd have "changes (Some l) bs = bs" by (rule Cons.IH)
  with lp b show ?case by simp
qed

lemma merge_timed_idem: "merge_timed (map as_frame (merge_timed fs)) = merge_timed fs"
  by (simp only: merge_timed_changes events_timed_frames changes_idem)

text \<open>
  Claim C8. The merge of the source is the merge of the timed frames \<open>i / fps\<close>, and
  the merge is idempotent: merging again the segments of an already merged sequence,
  each segment read as the frame of its start time and label, gives the same segments
  with the same start times, labels, durations (the fixed 0.5 of the final segment
  included) and confidences. This holds for the output of the source on every frame
  sequence and for the output of the merge on any timed frames; and for any segments
  whose adjacent labels differ, merging them as frames keeps every start time and label.
\<close>

theorem remerge_idempotent:
  "detect_chords_madmom frames = merge_timed (timed_frames frames) \<and>
   merge_timed (map as_frame (detect_chords_madmom frames)) = detect_chords_madmom frames \<and>
   merge_timed (map as_frame (merge_timed fs)) = merge_timed fs \<and>
   (distinct_adj (map snd bs) \<longrightarrow> map as_frame (merge_timed bs) = bs)"
proof -
  have a: "detect_chords_madmom frames = merge_timed (timed_frames frames)"
    by (rule detect_chords_madmom_timed)
  have b: "merge_timed (map as_frame (detect_chords_madmom frames)) = detect_chords_madmom frames"
    unfolding a by (rule merge_timed_idem)
  have c: "merge_timed (map as_frame (merge_timed fs)) = merge_timed fs"
    by (rule merge_timed_idem)
  have d: "distinct_adj (map snd bs) \<longrightarrow> map as_frame (merge_timed bs) = bs"
  proof
    assume "distinct_adj (map snd bs)"
    then have "changes None bs = bs"
      by (rule changes_distinct_adj) simp
    then show "map as_frame (merge_timed bs) = bs"
      by (simp only: merge_timed_changes events_timed_frames)
  qed
  from a b c d show ?thesis by (intro conjI)
qed

theorem remerge_idempotent_witness:
  "map as_frame (detect_chords_madmom [0, 0, 7]) = [(0, ''C:maj''), (1 / 5, ''G:maj'')] \<and>
   merge_timed [(0, ''C:maj''), (1 / 5, ''G:maj'')] =
     [\<lparr>time = 0, chord = ''C:maj'', duration = 1 / 5, confidence = 17 / 20\<rparr>,
      \<lparr>time = 1 / 5, chord = ''G:maj'', duration = 1 / 2, confidence = 17 / 20\<rparr>] \<and>
   map as_frame (merge_timed [(0, ''C:maj''), (1 / 5, ''G:maj'')]) =
     [(0, ''C:maj''), (1 / 5, ''G:maj'')]"
proof -
  have e: "detect_chords_madmom [0, 0, 7] =
     [\<lparr>time = 0, chord = ''C:maj'', duration = 1 / 5, confidence = 17 / 20\<rparr>,
      \<lparr>time = 1 / 5, chord = ''G:maj'', duration = 1 / 2, confidence = 17 / 20\<rparr>]"
    by (simp add: detect_chords_madmom_def detect_step_def fps_def get_chord_name_def
      CHORD_NAMES_def Let_def)
  have f: "map as_frame (detect_chords_madmom [0, 0, 7]) = [(0, ''C:maj''), (1 / 5, ''G:maj'')]"
    by (simp add: e as_frame_def)
  have h: "distinct_adj (map snd [(0 :: rat, ''C:maj''), (1 / 5, ''G:maj'')])"
    by simp
  note t = remerge_idempotent [of "[0, 0, 7]" "[]" "[(0, ''C:maj''), (1 / 5, ''G:maj'')]"]
  from t have "merge_timed (map as_frame (detect_chords_madmom [0, 0, 7])) =
      detect_chords_madmom [0, 0, 7]"
    by (rule conjunct1 [OF conjunct2])
  then have b: "merge_timed [(0, ''C:maj''), (1 / 5, ''G:maj'')] =
     [\<lparr>time = 0, chord = ''C:maj'', duration = 1 / 5, confidence = 17 / 20\<rparr>,
      \<lparr>time = 1 / 5, chord = ''G:maj'', duration = 1 / 2, confidence = 17 / 20\<rparr>]"
    by (simp only: f) (simp only: e)
  from t h have d: "map as_frame (merge_timed [(0, ''C:maj''), (1 / 5, ''G:maj'')]) =
     [(0, ''C:maj''), (1 / 5, ''G:maj'')]"
    by (simp only: simp_thms)
  from f b d show ?thesis by (intro conjI)
qed

section \<open>The most common chord\<close>

lemma Counter_snoc:
  "Counter (xs @ [x]) = dict_set (Counter xs) x (dict_get (Counter xs) x 0 + 1)"
  by (simp add: Counter_def)

lemma map_of_dict_set: "map_of (dict_set d k v) = (map_of d)(k \<mapsto> v)"
  by (induction d) (auto simp: fun_eq_iff)

lemma Counter_keys_set: "set (map fst (Counter xs)) = set xs"
  by (induction xs rule: rev_induct) (auto simp: Counter_snoc dict_set_keys Counter_def)

lemma Counter_keys_snoc:
  "map fst (Counter (xs @ [x])) =
     (if x \<in> set xs then map fst (Counter xs) else map fst (Counter xs) @ [x])"
  by (simp only: Counter_snoc dict_set_keys Counter_keys_set)

lemma Counter_distinct: "distinct (map fst (Counter xs))"
  by (induction xs rule: rev_induct) (simp_all add: Counter_snoc dict_set_distinct Counter_def)

lemma Counter_map_of:
  "map_of (Counter xs) k = (if k \<in> set xs then Some (int (count_list xs k)) else None)"
proof (induction xs arbitrary: k rule: rev_induct)
  case Nil
  show ?case by (simp add: Counter_def)
next
  case (snoc x xs)
  show ?case
    by (simp add: Counter_snoc map_of_dict_set dict_get_def snoc.IH)
qed

lemma Counter_entry:
  "(k, v) \<in> set (Counter xs) \<Longrightarrow> v = int (count_list xs k)"
proof -
  assume "(k, v) \<in> set (Counter xs)"
  then have "map_of (Counter xs) k = Some v"
    using Counter_distinct by (simp add: map_of_eq_Some_iff)
  then show ?thesis
    by (simp add: Counter_map_of split: if_splits)
qed

lemma Counter_keys_before:
  "map fst (Counter xs) = pre @ k # post \<Longrightarrow> set pre = set (takeWhile (\<lambda>y. y \<noteq> k) xs)"
proof (induction xs arbitrary: pre post rule: rev_induct)
  case Nil
  then show ?case by (simp add: Counter_def)
next
  case (snoc x xs)
  show ?case
  proof (cases "x \<in> set xs")
    case True
    with snoc.prems have dec: "map fst (Counter xs) = pre @ k # post"
      by (simp add: Counter_keys_snoc)
    then have "k \<in> set (map fst (Counter xs))" by simp
    then have k: "k \<in> set xs" by (simp only: Counter_keys_set)
    then have "takeWhile (\<lambda>y. y \<noteq> k) (xs @ [x]) = takeWhile (\<lambda>y. y \<noteq> k) xs"
      by (intro takeWhile_append1 [of k]) simp_all
    with snoc.IH [OF dec] show ?thesis by simp
  next
    case False
    with snoc.prems have dec: "map fst (Counter xs) @ [x] = pre @ k # post"
      by (simp add: Counter_keys_snoc)
    show ?thesis
    proof (cases post rule: rev_cases)
      case Nil
      with dec have "map fst (Counter xs) = pre" and kx: "k = x" by simp_all
      then have "set pre = set xs" using Counter_keys_set [of xs] by simp
      moreover from False kx have "takeWhile (\<lambda>y. y \<noteq> k) (xs @ [x]) = xs"
        by (auto simp: takeWhile_snoc)
      ultimately show ?thesis by simp
    next
      case (snoc post' z)
      with dec have dec': "map fst (Counter xs) = pre @ k # post'" by simp
      then have "k \<in> set (map fst (Counter xs))" by simp
      then have k: "k \<in> set xs" by (simp only: Counter_keys_set)
      then have "takeWhile (\<lambda>y. y \<noteq> k) (xs @ [x]) = takeWhile (\<lambda>y. y \<noteq> k) xs"
        by (intro takeWhile_append1 [of k]) simp_all
      with \<open>\<And>pre post. map fst (Counter xs) = pre @ k # post \<Longrightarrow>
          set pre = set (takeWhile (\<lambda>y. y \<noteq> k) xs)\<close> [OF dec'] show ?thesis by simp
    qed
  qed
qed

lemma max_by_count_split:
  "\<exists>pre post. b # items = pre @ max_by_count b items # post \<and>
     (\<forall>q\<in>set pre. snd q < snd (max_by_count b items)) \<and>
     (\<forall>q\<in>set post. snd q \<le> snd (max_by_count b items))"
proof (induction items arbitrary: b)
  case Nil
  show ?case by (rule exI [of _ "[]"], rule exI [of _ "[]"]) simp
next
  case (Cons i items)
  define b' where "b' = (if snd i > snd b then i else b)"
  define r where "r = max_by_count b' items"
  have r: "max_by_count b (i # items) = r"
    by (simp add: r_def b'_def)
  from Cons.IH [of b'] obtain pre post where
    dec: "b' # items = pre @ r # post" and
    lt: "\<forall>q\<in>set pre. snd q < snd r" and
    le: "\<forall>q\<in>set post. snd q \<le> snd r"
    unfolding r_def by blast
  have ge: "snd b' \<le> snd r"
  proof (cases pre)
    case Nil
    with dec show ?thesis by simp
  next
    case (Cons p pre')
    with dec have "p = b'" by simp
    with lt Cons show ?thesis by simp
  qed
  have "\<exists>pre post. b # i # items = pre @ r # post \<and>
     (\<forall>q\<in>set pre. snd q < snd r) \<and> (\<forall>q\<in>set post. snd q \<le> snd r)"
  proof (cases "snd i > snd b")
    case True
    then have bi: "b' = i" by (simp add: b'_def)
    with dec have "b # i # items = (b # pre) @ r # post" by simp
    moreover from True ge bi have "snd b < snd r" by simp
    with lt have "\<forall>q\<in>set (b # pre). snd q < snd r" by simp
    ultimately show ?thesis using le by blast
  next
    case False
    then have bb: "b' = b" by (simp add: b'_def)
    show ?thesis
    proof (cases pre)
      case Nil
      with dec bb have rb: "r = b" and p: "post = items" by simp_all
      from False le rb p have "\<forall>q\<in>set (i # items). snd q \<le> snd r" by simp
      moreover from rb have "b # i # items = [] @ r # (i # items)" by simp
      moreover have "\<forall>q\<in>set ([] :: (string \<times> int) list). snd q < snd r" by simp
      ultimately show ?thesis by blast
    next
      case (Cons p pre')
      with dec bb have pb: "p = b" and it: "items = pre' @ r # post" by simp_all
      from lt Cons pb have "snd b < snd r" by simp
      with False have "snd i < snd r" by simp
      with lt Cons pb have "\<forall>q\<in>set (b # i # pre'). snd q < snd r" by simp
      moreover from it have "b # i # items = (b # i # pre') @ r # post" by simp
      ultimately show ?thesis using le by blast
    qed
  qed
  then show ?case unfolding r .
qed

lemma first_index_le:
  "y \<notin> set (takeWhile (\<lambda>z. z \<noteq> x) xs) \<Longrightarrow> first_index xs x \<le> first_index xs y"
  unfolding first_index_def
proof (induction xs)
  case Nil
  show ?case by simp
next
  case (Cons a xs)
  then show ?case by (cases "a = x") auto
qed

lemma most_common_Counter:
  assumes "xs \<noteq> []"
  shows "\<exists>c. Counter xs \<noteq> [] \<and> fst (most_common_1 (Counter xs) ! 0) = c \<and> c \<in> set xs \<and>
     (\<forall>d\<in>set xs. count_list xs d \<le> count_list xs c) \<and>
     (\<forall>d\<in>set xs. count_list xs d = count_list xs c \<longrightarrow> first_index xs c \<le> first_index xs d)"
proof -
  from assms have "set (map fst (Counter xs)) \<noteq> {}"
    by (simp only: Counter_keys_set) simp
  then obtain b items where C: "Counter xs = b # items"
    by (cases "Counter xs") auto
  let ?r = "max_by_count b items"
  have mc: "most_common_1 (Counter xs) ! 0 = ?r"
    by (simp add: most_common_1_def C)
  from max_by_count_split [of b items] obtain pre post where
    dec: "Counter xs = pre @ ?r # post" and
    lt: "\<forall>q\<in>set pre. snd q < snd ?r" and
    le: "\<forall>q\<in>set post. snd q \<le> snd ?r"
    unfolding C by blast
  obtain c n where r: "?r = (c, n)" by (cases ?r)
  from dec r have "(c, n) \<in> set (Counter xs)" by simp
  then have n: "n = int (count_list xs c)" by (rule Counter_entry)
  from dec r have "c \<in> set (map fst (Counter xs))" by simp
  then have cin: "c \<in> set xs" by (simp only: Counter_keys_set)
  have keys: "map fst (Counter xs) = map fst pre @ c # map fst post"
    using dec r by simp
  have before: "set (map fst pre) = set (takeWhile (\<lambda>y. y \<noteq> c) xs)"
    using keys by (rule Counter_keys_before)
  have cnt: "snd q = int (count_list xs (fst q))" if "q \<in> set (Counter xs)" for q
    using that Counter_entry [of "fst q" "snd q" xs] by simp
  have max: "count_list xs d \<le> count_list xs c" if "d \<in> set xs" for d
  proof -
    from that have "d \<in> set (map fst (Counter xs))" by (simp only: Counter_keys_set)
    then obtain q where q: "q \<in> set (Counter xs)" "fst q = d" by auto
    from q(1) dec have "q \<in> set pre \<or> q = ?r \<or> q \<in> set post" by auto
    with lt le have "snd q \<le> snd ?r" by auto
    with cnt [OF q(1)] q(2) r n show ?thesis by simp
  qed
  have tie: "first_index xs c \<le> first_index xs d"
    if "count_list xs d = count_list xs c" for d
  proof (rule first_index_le)
    show "d \<notin> set (takeWhile (\<lambda>z. z \<noteq> c) xs)"
    proof
      assume "d \<in> set (takeWhile (\<lambda>z. z \<noteq> c) xs)"
      then have "d \<in> set (map fst pre)" by (simp only: before)
      then obtain q where q: "q \<in> set pre" "fst q = d" by auto
      with dec have "q \<in> set (Counter xs)" by simp
      from cnt [OF this] q(2) have "snd q = int (count_list xs d)" by simp
      moreover from lt q(1) r n have "snd q < int (count_list xs c)" by simp
      ultimately show False using that by simp
    qed
  qed
  from C mc r cin max tie show ?thesis by simp
qed

text \<open>
  Claim C7. For every non-empty chord sequence, the most common chord is a label of the
  sequence whose count no other label exceeds, and among the labels with that count it
  is the one whose first occurrence comes earliest.
\<close>

theorem most_common_chord_first_seen:
  assumes "data \<noteq> []"
  shows "\<exists>c. most_common_chord (analyze_chord_sequence data) = Some c \<and>
     c \<in> set (chord_sequence (analyze_chord_sequence data)) \<and>
     (\<forall>d\<in>set (chord_sequence (analyze_chord_sequence data)).
        count_list (chord_sequence (analyze_chord_sequence data)) d \<le>
          count_list (chord_sequence (analyze_chord_sequence data)) c) \<and>
     (\<forall>d\<in>set (chord_sequence (analyze_chord_sequence data)).
        count_list (chord_sequence (analyze_chord_sequence data)) d =
          count_list (chord_sequence (analyze_chord_sequence data)) c \<longrightarrow>
        first_index (chord_sequence (analyze_chord_sequence data)) c \<le>
          first_index (chord_sequence (analyze_chord_sequence data)) d)"
proof -
  let ?s = "map chord data"
  from assms have ne: "?s \<noteq> []" by simp
  from most_common_Counter [OF ne] obtain c where
    C: "Counter ?s \<noteq> []" and m: "fst (most_common_1 (Counter ?s) ! 0) = c" and
    rest: "c \<in> set ?s" "\<forall>d\<in>set ?s. count_list ?s d \<le> count_list ?s c"
      "\<forall>d\<in>set ?s. count_list ?s d = count_list ?s c \<longrightarrow> first_index ?s c \<le> first_index ?s d"
    by blast
  have "most_common_chord (analyze_chord_sequence data) = Some c"
    using assms C m by (simp add: analyze_chord_sequence_def Let_def split: prod.splits)
  with rest show ?thesis
    unfolding analyze_chord_sequence_fields by (intro exI [of _ c] conjI)
qed


lemma alternating_events:
  "detect_chords_madmom [0, 7, 0, 7] =
     [\<lparr>time = 0, chord = ''C:maj'', duration = 1 / 10, confidence = 17 / 20\<rparr>,
      \<lparr>time = 1 / 10, chord = ''G:maj'', duration = 1 / 10, confidence = 17 / 20\<rparr>,
      \<lparr>time = 1 / 5, chord = ''C:maj'', duration = 1 / 10, confidence = 17 / 20\<rparr>,
      \<lparr>time = 3 / 10, chord = ''G:maj'', duration = 1 / 2, confidence = 17 / 20\<rparr>]"
  by (simp add: detect_chords_madmom_def detect_step_def fps_def get_chord_name_def
      CHORD_NAMES_def Let_def)

theorem most_common_chord_first_seen_witness:
  "chord_sequence (analyze_chord_sequence (detect_chords_madmom [0, 7, 0, 7])) =
     [''C:maj'', ''G:maj'', ''C:maj'', ''G:maj''] \<and>
   most_common_chord (analyze_chord_sequence (detect_chords_madmom [0, 7, 0, 7])) =
     Some ''C:maj'' \<and>
   count_list [''C:maj'', ''G:maj'', ''C:maj'', ''G:maj''] ''G:maj'' =
     count_list [''C:maj'', ''G:maj'', ''C:maj'', ''G:maj''] ''C:maj'' \<and>
   first_index [''C:maj'', ''G:maj'', ''C:maj'', ''G:maj''] ''C:maj'' <
     first_index [''C:maj'', ''G:maj'', ''C:maj'', ''G:maj''] ''G:maj''"
proof -
  have ne: "detect_chords_madmom [0, 7, 0, 7] \<noteq> []"
    by (simp add: alternating_events)
  from most_common_chord_first_seen [OF ne] show ?thesis
    unfolding alternating_events
    by (simp add: analyze_chord_sequence_def Counter_def dict_get_def most_common_1_def
        count_transitions_def estimate_key_def first_index_def Let_def)
qed

end
